theory Spec2Isabelle
  imports Complex_Main
begin

section \<open>Arrays, broadcasting and errors\<close>

text \<open>
  The notebook \<^verbatim>\<open>docs/advanced/reparametrization.ipynb\<close> computes with arrays of
  floating-point numbers of dimension zero (a scalar) or one (a vector). The elements of
  these arrays are modelled as mathematical reals, so the statements about the transform
  are statements of real arithmetic. Neal's funnel, where underflow decides what the
  function returns, is modelled in double precision further below.
\<close>

datatype ndarray = Scalar real | Vec "real list"

text \<open>
  Errors as values. \<open>ShapeMismatch\<close> is the array layer's error for operands that do not
  broadcast and \<open>IndexError\<close> the one for an index out of bounds; these are the two errors
  the expressions of the notebook can raise. \<open>InvalidParameterError\<close> and
  \<open>DivisionUndefinedError\<close> are the two errors the specification names.
\<close>

datatype error = ShapeMismatch | IndexError | InvalidParameterError | DivisionUndefinedError

text \<open>
  An element-wise binary operator under the broadcasting rules of NumPy, which the
  specification names as the contract: a scalar combines with anything, two vectors
  combine when their lengths are equal or one of them has length one, and any other pair
  of vectors is a shape mismatch.
\<close>

fun broadcast2 :: "(real \<Rightarrow> real \<Rightarrow> real) \<Rightarrow> ndarray \<Rightarrow> ndarray \<Rightarrow> error + ndarray" where
  "broadcast2 f (Scalar x) (Scalar y) = Inr (Scalar (f x y))"
| "broadcast2 f (Scalar x) (Vec ys) = Inr (Vec (map (f x) ys))"
| "broadcast2 f (Vec xs) (Scalar y) = Inr (Vec (map (\<lambda>x. f x y) xs))"
| "broadcast2 f (Vec xs) (Vec ys) =
     (if length xs = length ys then Inr (Vec (map2 f xs ys))
      else if length xs = 1 then Inr (Vec (map (f (hd xs)) ys))
      else if length ys = 1 then Inr (Vec (map (\<lambda>x. f x (hd ys)) xs))
      else Inl ShapeMismatch)"

definition mul :: "ndarray \<Rightarrow> ndarray \<Rightarrow> error + ndarray" where
  "mul = broadcast2 (\<lambda>x y. x * y)"

definition add :: "ndarray \<Rightarrow> ndarray \<Rightarrow> error + ndarray" where
  "add = broadcast2 (\<lambda>x y. x + y)"

text \<open>
  The number of elements of an array, and its element at an index as broadcasting reads
  it: a scalar and a vector of length one give their only element at every index.
\<close>

fun size_nd :: "ndarray \<Rightarrow> nat" where
  "size_nd (Scalar x) = 1"
| "size_nd (Vec xs) = length xs"

fun elem :: "ndarray \<Rightarrow> nat \<Rightarrow> real" where
  "elem (Scalar x) i = x"
| "elem (Vec xs) i = (if length xs = 1 then xs ! 0 else xs ! i)"

fun is_vec :: "ndarray \<Rightarrow> bool" where
  "is_vec (Scalar x) = False"
| "is_vec (Vec xs) = True"

text \<open>
  An array fits the length \<open>n\<close> when it broadcasts to a vector of that length: it has
  \<open>n\<close> elements, or one.
\<close>

definition fits :: "nat \<Rightarrow> ndarray \<Rightarrow> bool" where
  "fits n a \<longleftrightarrow> size_nd a = n \<or> size_nd a = 1"

text \<open>
  The length two arrays of \<open>m\<close> and of \<open>n\<close> elements broadcast to, and whether they
  broadcast at all.
\<close>

definition bsize :: "nat \<Rightarrow> nat \<Rightarrow> nat" where
  "bsize m n = (if m = 1 then n else m)"

definition compatible :: "nat \<Rightarrow> nat \<Rightarrow> bool" where
  "compatible m n \<longleftrightarrow> m = n \<or> m = 1 \<or> n = 1"

fun has_nonpositive :: "ndarray \<Rightarrow> bool" where
  "has_nonpositive (Scalar x) = (x \<le> 0)"
| "has_nonpositive (Vec xs) = list_ex (\<lambda>x. x \<le> 0) xs"

section \<open>The non-centered transform\<close>

text \<open>
  The affine expression of the reparametrized model,
  \<^verbatim>\<open>logit_p_shop_raw * scale + mean\<close>: the product is computed first, then the sum; an
  error of the product is the error of the whole expression. Nothing inspects the sign of
  \<open>scale\<close>.
\<close>

definition transform :: "ndarray \<Rightarrow> ndarray \<Rightarrow> ndarray \<Rightarrow> error + ndarray" where
  "transform raw loc scale =
     (case mul raw scale of
        Inl e \<Rightarrow> Inl e
      | Inr p \<Rightarrow> add p loc)"

text \<open>
  The inverse-direction operators of the array library, by the same broadcasting rules.
  Division is the division of real numbers; the caller below never divides by zero.
\<close>

definition sub :: "ndarray \<Rightarrow> ndarray \<Rightarrow> error + ndarray" where
  "sub = broadcast2 (\<lambda>x y. x - y)"

definition divide_nd :: "ndarray \<Rightarrow> ndarray \<Rightarrow> error + ndarray" where
  "divide_nd = broadcast2 (\<lambda>x y. x / y)"

fun has_zero :: "ndarray \<Rightarrow> bool" where
  "has_zero (Scalar x) = (x = 0)"
| "has_zero (Vec xs) = (0 \<in> set xs)"

text \<open>
  Modelled from the spec: the inverse operation \<open>untransform\<close>, which the notebook does
  not contain. The specification gives its computation as
  \<^verbatim>\<open>raw = (effective - loc) / scale\<close> and its error condition as
  \<^verbatim>\<open>scale == 0\<close> signalling \<open>DivisionUndefinedError\<close>, surfaced immediately; for an
  array the condition is read as: some element of \<open>scale\<close> is zero.
\<close>

definition untransform :: "ndarray \<Rightarrow> ndarray \<Rightarrow> ndarray \<Rightarrow> error + ndarray" where
  "untransform effective loc scale =
     (if has_zero scale then Inl DivisionUndefinedError
      else (case sub effective loc of
              Inl e \<Rightarrow> Inl e
            | Inr d \<Rightarrow> divide_nd d scale))"

section \<open>The reparametrized hierarchical model\<close>

text \<open>
  The column \<^verbatim>\<open>data["owner_idx"]\<close> is a list of integers, one per row of the data frame;
  \<^verbatim>\<open>n_owners = len(data["owner_idx"].unique())\<close> counts its distinct values.
\<close>

definition n_owners :: "int list \<Rightarrow> nat" where
  "n_owners owner_idx = length (remdups owner_idx)"

text \<open>
  Indexing a vector by one integer, as Python does: an index from \<open>0\<close> up to the length
  reads from the front, a negative one down to minus the length reads from the end,
  anything else raises \<open>IndexError\<close>. Indexing by a list of integers reads each index in
  order and builds a new vector.
\<close>

definition index1 :: "real list \<Rightarrow> int \<Rightarrow> error + real" where
  "index1 xs i =
     (let n = int (length xs) in
      if 0 \<le> i \<and> i < n then Inr (xs ! nat i)
      else if - n \<le> i \<and> i < 0 then Inr (xs ! nat (n + i))
      else Inl IndexError)"

fun getitem :: "real list \<Rightarrow> int list \<Rightarrow> error + real list" where
  "getitem xs [] = Inr []"
| "getitem xs (i # js) =
     (case index1 xs i of
        Inl e \<Rightarrow> Inl e
      | Inr v \<Rightarrow> (case getitem xs js of
                    Inl e \<Rightarrow> Inl e
                    | Inr vs \<Rightarrow> Inr (v # vs)))"

text \<open>
  A point of the model: one value for each free random variable that the block
  \<^verbatim>\<open>with pm.Model() as model\<close> declares. The declared shapes are \<open>(n_owners,)\<close> for the two
  owner-level vectors and \<open>(len(data),)\<close> for the raw shop-level vector.
\<close>

record point =
  logit_p_overall :: real
  logit_p_owner_mean :: "real list"
  logit_p_owner_scale :: "real list"
  logit_p_shop_raw :: "real list"

definition declared_shapes :: "int list \<Rightarrow> point \<Rightarrow> bool" where
  "declared_shapes owner_idx pt \<longleftrightarrow>
     length (logit_p_owner_mean pt) = n_owners owner_idx
     \<and> length (logit_p_owner_scale pt) = n_owners owner_idx
     \<and> length (logit_p_shop_raw pt) = length owner_idx"

text \<open>
  The deterministic node
  \<^verbatim>\<open>logit_p_shop_raw * logit_p_owner_scale[data["owner_idx"]] + logit_p_owner_mean[data["owner_idx"]]\<close>,
  evaluated left to right: the scale is indexed, the product is taken, the mean is indexed,
  the sum is taken.
\<close>

definition logit_p_shop :: "int list \<Rightarrow> point \<Rightarrow> error + ndarray" where
  "logit_p_shop owner_idx pt =
     (case getitem (logit_p_owner_scale pt) owner_idx of
        Inl e \<Rightarrow> Inl e
      | Inr s \<Rightarrow>
          (case mul (Vec (logit_p_shop_raw pt)) (Vec s) of
             Inl e \<Rightarrow> Inl e
           | Inr p \<Rightarrow>
               (case getitem (logit_p_owner_mean pt) owner_idx of
                  Inl e \<Rightarrow> Inl e
                | Inr m \<Rightarrow> add p (Vec m))))"

text \<open>
  The inverse logit \<^verbatim>\<open>pm.invlogit\<close> is a function of the modelling library; it is taken
  as the function \<open>1 / (1 + exp (- z))\<close> that its name stands for. The model applies it
  to every element: \<^verbatim>\<open>p_shop = pm.invlogit(logit_p_shop)\<close>.
\<close>

definition invlogit :: "real \<Rightarrow> real" where
  "invlogit z = 1 / (1 + exp (- z))"

fun map_nd :: "(real \<Rightarrow> real) \<Rightarrow> ndarray \<Rightarrow> ndarray" where
  "map_nd f (Scalar x) = Scalar (f x)"
| "map_nd f (Vec xs) = Vec (map f xs)"

definition p_shop :: "int list \<Rightarrow> point \<Rightarrow> error + ndarray" where
  "p_shop owner_idx pt =
     (case logit_p_shop owner_idx pt of
        Inl e \<Rightarrow> Inl e
      | Inr z \<Rightarrow> Inr (map_nd invlogit z))"

section \<open>The normal density\<close>

text \<open>
  The density of the normal law as a function of real numbers, by the formula of
  \<^verbatim>\<open>norm(loc, scale).pdf(x)\<close> of the statistics library: the standard normal density at
  \<open>(x - loc) / scale\<close>, divided by \<open>scale\<close>. It is defined for a positive scale only;
  \<open>None\<close> stands for the undefined result at any other scale.
\<close>

definition norm_pdf :: "real \<Rightarrow> real \<Rightarrow> real \<Rightarrow> real option" where
  "norm_pdf loc scale x =
     (if 0 < scale
      then Some (exp (- (((x - loc) / scale)\<^sup>2) / 2) / sqrt (2 * pi) / scale)
      else None)"

section \<open>Neal's funnel in double precision\<close>

text \<open>
  The function \<^verbatim>\<open>neals_funnel_likelihood\<close> computes with doubles, and what it returns at
  the ends of the range is decided by underflow, overflow and not-a-number values. A
  double is a real number, plus or minus infinity, or not-a-number. The result of an
  arithmetic operation is rounded: a result of magnitude at most half the smallest
  subnormal number becomes zero, a result that reaches the largest double plus half a
  unit in its last place becomes an infinity, and any other result is kept as it is (the
  rounding of the mantissa is not modelled, and neither is the sign of zero).
\<close>

datatype double = Fin real | PInf | NInf | NaN

definition underflow_bound :: real where
  "underflow_bound = 1 / 2 ^ 1075"

definition overflow_bound :: real where
  "overflow_bound = 2 ^ 1024 - 2 ^ 970"

definition fl_round :: "real \<Rightarrow> double" where
  "fl_round x =
     (if overflow_bound \<le> x then PInf
      else if x \<le> - overflow_bound then NInf
      else if \<bar>x\<bar> \<le> underflow_bound then Fin 0
      else Fin x)"

text \<open>
  Negation, subtraction, multiplication and division of doubles. An undefined form
  (infinity minus infinity, zero times infinity, zero by zero, infinity by infinity)
  gives not-a-number, and so does any operation on not-a-number; a division of a
  non-zero number by zero gives an infinity and raises nothing.
\<close>

fun fl_neg :: "double \<Rightarrow> double" where
  "fl_neg (Fin x) = Fin (- x)"
| "fl_neg PInf = NInf"
| "fl_neg NInf = PInf"
| "fl_neg NaN = NaN"

fun fl_sub :: "double \<Rightarrow> double \<Rightarrow> double" where
  "fl_sub (Fin a) (Fin b) = fl_round (a - b)"
| "fl_sub NaN y = NaN"
| "fl_sub x NaN = NaN"
| "fl_sub PInf PInf = NaN"
| "fl_sub NInf NInf = NaN"
| "fl_sub PInf y = PInf"
| "fl_sub NInf y = NInf"
| "fl_sub (Fin a) PInf = NInf"
| "fl_sub (Fin a) NInf = PInf"

fun fl_mul :: "double \<Rightarrow> double \<Rightarrow> double" where
  "fl_mul (Fin a) (Fin b) = fl_round (a * b)"
| "fl_mul NaN y = NaN"
| "fl_mul x NaN = NaN"
| "fl_mul (Fin a) PInf = (if a = 0 then NaN else if 0 < a then PInf else NInf)"
| "fl_mul (Fin a) NInf = (if a = 0 then NaN else if 0 < a then NInf else PInf)"
| "fl_mul PInf (Fin b) = (if b = 0 then NaN else if 0 < b then PInf else NInf)"
| "fl_mul NInf (Fin b) = (if b = 0 then NaN else if 0 < b then NInf else PInf)"
| "fl_mul PInf PInf = PInf"
| "fl_mul NInf NInf = PInf"
| "fl_mul PInf NInf = NInf"
| "fl_mul NInf PInf = NInf"

fun fl_div :: "double \<Rightarrow> double \<Rightarrow> double" where
  "fl_div (Fin a) (Fin b) =
     (if b = 0 then (if a = 0 then NaN else if 0 < a then PInf else NInf)
      else fl_round (a / b))"
| "fl_div NaN y = NaN"
| "fl_div x NaN = NaN"
| "fl_div (Fin a) PInf = Fin 0"
| "fl_div (Fin a) NInf = Fin 0"
| "fl_div PInf (Fin b) = (if 0 \<le> b then PInf else NInf)"
| "fl_div NInf (Fin b) = (if 0 \<le> b then NInf else PInf)"
| "fl_div PInf y = NaN"
| "fl_div NInf y = NaN"

text \<open>
  \<^verbatim>\<open>np.exp\<close>: the exponential, rounded. It underflows to zero on a sufficiently negative
  argument and overflows to infinity on a sufficiently large one.
\<close>

fun np_exp :: "double \<Rightarrow> double" where
  "np_exp (Fin x) = fl_round (exp x)"
| "np_exp PInf = PInf"
| "np_exp NInf = Fin 0"
| "np_exp NaN = NaN"

text \<open>The comparison \<^verbatim>\<open>scale > 0\<close> on doubles; it is false of not-a-number.\<close>

fun fl_positive :: "double \<Rightarrow> bool" where
  "fl_positive (Fin s) = (0 < s)"
| "fl_positive PInf = True"
| "fl_positive NInf = False"
| "fl_positive NaN = False"

text \<open>
  The standard normal density of the statistics library,
  \<^verbatim>\<open>np.exp(-x**2/2.0) / sqrt(2*pi)\<close>, and \<^verbatim>\<open>norm(loc, scale).pdf(x)\<close> as the library
  computes it: the argument is standardised to \<open>(x - loc) / scale\<close>; the result is
  not-a-number when the scale is not positive or the standardised argument is
  not-a-number, and otherwise the standard density there, divided by the scale.
\<close>

definition std_norm_pdf :: "double \<Rightarrow> double" where
  "std_norm_pdf z =
     fl_div (np_exp (fl_div (fl_neg (fl_mul z z)) (Fin 2))) (Fin (sqrt (2 * pi)))"

definition norm_pdf_fl :: "double \<Rightarrow> double \<Rightarrow> double \<Rightarrow> double" where
  "norm_pdf_fl loc scale x =
     (let z = fl_div (fl_sub x loc) scale in
      if \<not> fl_positive scale \<or> z = NaN then NaN
      else fl_div (std_norm_pdf z) scale)"

text \<open>
  The function of the notebook:
  \<^verbatim>\<open>v_like = norm(0, 1).pdf(v); x_like = norm(0, np.exp(v)).pdf(x); return v_like * x_like\<close>.
  The arguments \<open>v\<close> and \<open>x\<close> are finite numbers.
\<close>

definition neals_funnel_likelihood :: "real \<Rightarrow> real \<Rightarrow> double" where
  "neals_funnel_likelihood v x =
     (let v_like = norm_pdf_fl (Fin 0) (Fin 1) (Fin v);
          x_like = norm_pdf_fl (Fin 0) (np_exp (Fin v)) (Fin x)
      in fl_mul v_like x_like)"

section \<open>Normal laws\<close>

text \<open>
  The law of a real random variable is given by its distribution function. A random
  variable is a function \<open>X\<close> on a sample space, \<open>P\<close> assigns a probability to every event,
  and \<open>cdf P X t\<close> is the probability of the event that \<open>X\<close> is at most \<open>t\<close>. Two random
  variables are identically distributed when their distribution functions are equal.
\<close>

definition cdf :: "('a set \<Rightarrow> real) \<Rightarrow> ('a \<Rightarrow> real) \<Rightarrow> real \<Rightarrow> real" where
  "cdf P X t = P {\<omega>. X \<omega> \<le> t}"

text \<open>
  \<open>F\<close> is the distribution function of the normal law with location \<open>mu\<close> and scale
  \<open>sigma\<close>: at every point its derivative is the density \<^verbatim>\<open>norm(mu, sigma).pdf\<close>, and it
  tends to \<open>0\<close> at minus infinity. No function is one for a scale that is not positive,
  where the density is undefined.
\<close>

definition has_normal_law :: "real \<Rightarrow> real \<Rightarrow> (real \<Rightarrow> real) \<Rightarrow> bool" where
  "has_normal_law mu sigma F \<longleftrightarrow>
     (\<forall>x. \<exists>d. norm_pdf mu sigma x = Some d \<and> (F has_real_derivative d) (at x))
     \<and> (F \<longlongrightarrow> 0) at_bot"

text \<open>
  The distribution function of the transformed variable: the probability of the event
  that the transform of the draw \<open>raw \<omega>\<close>, with scalar location and scale, returns a
  number that is at most \<open>t\<close>.
\<close>

definition transform_cdf ::
    "('a set \<Rightarrow> real) \<Rightarrow> ('a \<Rightarrow> real) \<Rightarrow> real \<Rightarrow> real \<Rightarrow> real \<Rightarrow> real" where
  "transform_cdf P raw loc scale t =
     P {\<omega>. \<exists>e. transform (Scalar (raw \<omega>)) (Scalar loc) (Scalar scale) = Inr (Scalar e) \<and> e \<le> t}"

text \<open>
  The standard normal distribution function itself, to have a normal law at hand: the
  power series of \<open>exp (- x\<^sup>2 / 2)\<close> integrated term by term, shifted by its limit at
  minus infinity and divided by \<open>sqrt (2 * pi)\<close>.
\<close>

definition gauss_coeff :: "nat \<Rightarrow> real" where
  "gauss_coeff n = (if even n then (- 1 / 2) ^ (n div 2) / fact (n div 2) else 0)"

definition gauss_prim_coeff :: "nat \<Rightarrow> real" where
  "gauss_prim_coeff n = (if n = 0 then 0 else gauss_coeff (n - 1) / real n)"

definition gauss_prim :: "real \<Rightarrow> real" where
  "gauss_prim x = (\<Sum>n. gauss_prim_coeff n * x ^ n)"

definition std_normal_cdf :: "real \<Rightarrow> real" where
  "std_normal_cdf x = (gauss_prim x - Lim at_bot gauss_prim) / sqrt (2 * pi)"

section \<open>Arrays as objects of a store\<close>

text \<open>
  Python arrays are mutable objects reached through references. To state what an
  evaluation of the transform does to the objects that exist, the store is a list of
  arrays and a reference is a position in it. The operators \<^verbatim>\<open>*\<close> and \<^verbatim>\<open>+\<close> build a
  new array and return a reference to it; they are not the in-place operators.
\<close>

type_synonym store = "ndarray list"

definition alloc :: "store \<Rightarrow> ndarray \<Rightarrow> nat \<times> store" where
  "alloc h v = (length h, h @ [v])"

definition mul_ref :: "store \<Rightarrow> nat \<Rightarrow> nat \<Rightarrow> error + nat \<times> store" where
  "mul_ref h a b =
     (case mul (h ! a) (h ! b) of
        Inl e \<Rightarrow> Inl e
      | Inr v \<Rightarrow> Inr (alloc h v))"

definition add_ref :: "store \<Rightarrow> nat \<Rightarrow> nat \<Rightarrow> error + nat \<times> store" where
  "add_ref h a b =
     (case add (h ! a) (h ! b) of
        Inl e \<Rightarrow> Inl e
      | Inr v \<Rightarrow> Inr (alloc h v))"

definition transform_ref :: "store \<Rightarrow> nat \<Rightarrow> nat \<Rightarrow> nat \<Rightarrow> error + nat \<times> store" where
  "transform_ref h raw loc scale =
     (case mul_ref h raw scale of
        Inl e \<Rightarrow> Inl e
      | Inr (p, h1) \<Rightarrow> add_ref h1 p loc)"

text \<open>The value an evaluation returns, read through the returned reference.\<close>

fun returned :: "error + nat \<times> store \<Rightarrow> error + ndarray" where
  "returned (Inl e) = Inl e"
| "returned (Inr (a, h)) = Inr (h ! a)"

section \<open>Properties of broadcasting\<close>

lemma hd_length_one: "length xs = Suc 0 \<Longrightarrow> hd xs = xs ! 0"
  by (cases xs) auto

lemma broadcast2_elem:
  assumes "broadcast2 f a b = Inr c" and "i < size_nd c \<or> size_nd c = 1"
  shows "elem c i = f (elem a i) (elem b i)"
proof (cases a)
  case (Scalar x)
  then show ?thesis using assms by (cases b) auto
next
  case (Vec xs)
  show ?thesis
  proof (cases b)
    case (Scalar y)
    then show ?thesis using assms Vec by auto
  next
    case (Vec ys)
    then show ?thesis using assms \<open>a = Vec xs\<close>
      by (auto split: if_splits simp: hd_length_one)
  qed
qed

lemma broadcast2_size:
  assumes "broadcast2 f a b = Inr c"
  shows "size_nd c = (if size_nd a = 1 then size_nd b else size_nd a)
         \<and> (is_vec c \<longleftrightarrow> is_vec a \<or> is_vec b)"
proof (cases a)
  case (Scalar x)
  then show ?thesis using assms by (cases b) auto
next
  case (Vec xs)
  then show ?thesis using assms by (cases b) (auto split: if_splits)
qed

lemma broadcast2_fits:
  assumes "fits n a" and "fits n b"
  shows "\<exists>c. broadcast2 f a b = Inr c \<and> fits n c"
proof (cases a)
  case (Scalar x)
  then show ?thesis using assms by (cases b) (auto simp: fits_def)
next
  case (Vec xs)
  then show ?thesis using assms by (cases b) (auto simp: fits_def)
qed

section \<open>Properties of the forward transform\<close>

lemma transform_elem:
  assumes "transform raw loc scale = Inr e" and "i < size_nd e"
  shows "elem e i = elem raw i * elem scale i + elem loc i"
proof -
  from assms(1) obtain p where p: "mul raw scale = Inr p" and e: "add p loc = Inr e"
    by (auto simp: transform_def split: sum.splits)
  from e have "elem e i = elem p i + elem loc i"
    using assms(2) by (simp add: add_def broadcast2_elem)
  moreover from e have "size_nd e = (if size_nd p = 1 then size_nd loc else size_nd p)"
    by (simp add: add_def broadcast2_size)
  then have "i < size_nd p \<or> size_nd p = 1"
    using assms(2) by (auto split: if_splits)
  with p have "elem p i = elem raw i * elem scale i"
    by (simp add: mul_def broadcast2_elem)
  ultimately show ?thesis by simp
qed

lemma transform_fits:
  assumes "fits n raw" and "fits n loc" and "fits n scale"
  shows "\<exists>e. transform raw loc scale = Inr e \<and> fits n e"
proof -
  from assms obtain p where p: "mul raw scale = Inr p" "fits n p"
    using broadcast2_fits[of n raw scale] by (auto simp: mul_def)
  with assms obtain e where "add p loc = Inr e" "fits n e"
    using broadcast2_fits[of n p loc] by (auto simp: add_def)
  with p show ?thesis by (simp add: transform_def)
qed

lemma broadcast2_returns:
  "(\<exists>c. broadcast2 f a b = Inr c) \<longleftrightarrow> compatible (size_nd a) (size_nd b)"
proof (cases a)
  case (Scalar x)
  then show ?thesis by (cases b) (auto simp: compatible_def)
next
  case (Vec xs)
  then show ?thesis by (cases b) (auto simp: compatible_def)
qed

lemma transform_shape:
  assumes "transform raw loc scale = Inr e"
  shows "size_nd e = bsize (bsize (size_nd raw) (size_nd scale)) (size_nd loc)
         \<and> (is_vec e \<longleftrightarrow> is_vec raw \<or> is_vec scale \<or> is_vec loc)"
proof -
  from assms obtain p where p: "mul raw scale = Inr p" and e: "add p loc = Inr e"
    by (auto simp: transform_def split: sum.splits)
  from p have "size_nd p = bsize (size_nd raw) (size_nd scale)"
    and "is_vec p \<longleftrightarrow> is_vec raw \<or> is_vec scale"
    by (simp_all add: mul_def bsize_def broadcast2_size)
  moreover from e have "size_nd e = bsize (size_nd p) (size_nd loc)"
    and "is_vec e \<longleftrightarrow> is_vec p \<or> is_vec loc"
    by (simp_all add: add_def bsize_def broadcast2_size)
  ultimately show ?thesis by simp
qed

lemma transform_returns:
  "(\<exists>e. transform raw loc scale = Inr e) \<longleftrightarrow>
     compatible (size_nd raw) (size_nd scale)
     \<and> compatible (bsize (size_nd raw) (size_nd scale)) (size_nd loc)"
proof (cases "mul raw scale")
  case (Inl err)
  then have "\<not> (\<exists>c. broadcast2 (\<lambda>x y. x * y) raw scale = Inr c)" by (simp add: mul_def)
  then have "\<not> compatible (size_nd raw) (size_nd scale)" by (simp add: broadcast2_returns)
  with Inl show ?thesis by (simp add: transform_def)
next
  case (Inr p)
  then have "\<exists>c. broadcast2 (\<lambda>x y. x * y) raw scale = Inr c" by (simp add: mul_def)
  then have c: "compatible (size_nd raw) (size_nd scale)" by (simp add: broadcast2_returns)
  from Inr have sp: "size_nd p = bsize (size_nd raw) (size_nd scale)"
    by (simp add: mul_def bsize_def broadcast2_size)
  have "(\<exists>e. add p loc = Inr e) \<longleftrightarrow> compatible (size_nd p) (size_nd loc)"
    unfolding add_def by (rule broadcast2_returns)
  with Inr c sp show ?thesis by (simp add: transform_def)
qed

lemma transform_fits_size:
  assumes "fits n raw" and "fits n loc" and "fits n scale"
  shows "\<exists>e. transform raw loc scale = Inr e \<and> fits n e
           \<and> size_nd e = (if size_nd raw = n \<or> size_nd scale = n \<or> size_nd loc = n
                           then n else 1)"
proof -
  from transform_fits[OF assms] obtain e where e: "transform raw loc scale = Inr e" "fits n e"
    by blast
  from transform_shape[OF e(1)] assms
  have "size_nd e = (if size_nd raw = n \<or> size_nd scale = n \<or> size_nd loc = n then n else 1)"
    by (auto simp: bsize_def fits_def)
  with e show ?thesis by blast
qed

lemma transform_vectors:
  assumes "length rs = length ss" and "length ss = length ls"
  shows "transform (Vec rs) (Vec ls) (Vec ss)
         = Inr (Vec (map2 (\<lambda>x y. x + y) (map2 (\<lambda>x y. x * y) rs ss) ls))"
  using assms by (simp add: transform_def mul_def add_def)

lemma transform_error_is_shape:
  assumes "transform raw loc scale = Inl err"
  shows "err = ShapeMismatch"
proof -
  have bc: "broadcast2 f a b = Inl x \<Longrightarrow> x = ShapeMismatch" for f a b x
    by (cases a; cases b) (auto split: if_splits)
  from assms show ?thesis
    by (auto simp: transform_def mul_def add_def split: sum.splits dest: bc)
qed

text \<open>
  C1. The forward operation returns \<open>raw * scale + loc\<close>, element by element under
  broadcasting: on the example of the specification it returns \<open>[1, 2, 3]\<close>; on three
  vectors of one length it returns the vector of the element-wise results. Whenever it
  returns an array, that array has the broadcast shape of the three inputs (its length
  is the length the inputs broadcast to, and it is a vector as soon as one input is),
  and each of its elements is the product of the elements of \<open>raw\<close> and \<open>scale\<close> at that
  index plus the element of \<open>loc\<close> there, a scalar or a vector of length one being read
  at every index. It returns an array exactly when the inputs broadcast, and in
  particular whenever the three inputs fit one length.
\<close>

theorem transform_elementwise:
  "transform (Vec [1, 1, 1]) (Vec [0, 1, 2]) (Vec [1, 1, 1]) = Inr (Vec [1, 2, 3])
   \<and> (length rs = length ss \<and> length ss = length ls \<longrightarrow>
        transform (Vec rs) (Vec ls) (Vec ss)
        = Inr (Vec (map2 (\<lambda>x y. x + y) (map2 (\<lambda>x y. x * y) rs ss) ls)))
   \<and> (\<forall>e. transform raw loc scale = Inr e \<longrightarrow>
        size_nd e = bsize (bsize (size_nd raw) (size_nd scale)) (size_nd loc)
        \<and> (is_vec e \<longleftrightarrow> is_vec raw \<or> is_vec scale \<or> is_vec loc)
        \<and> (\<forall>i. i < size_nd e \<longrightarrow> elem e i = elem raw i * elem scale i + elem loc i))
   \<and> ((\<exists>e. transform raw loc scale = Inr e) \<longleftrightarrow>
        compatible (size_nd raw) (size_nd scale)
        \<and> compatible (bsize (size_nd raw) (size_nd scale)) (size_nd loc))
   \<and> (fits n raw \<and> fits n loc \<and> fits n scale \<longrightarrow>
        (\<exists>e. transform raw loc scale = Inr e \<and> fits n e
           \<and> size_nd e = (if size_nd raw = n \<or> size_nd scale = n \<or> size_nd loc = n
                           then n else 1)))"
proof (intro conjI allI impI)
  show "transform (Vec [1, 1, 1]) (Vec [0, 1, 2]) (Vec [1, 1, 1]) = Inr (Vec [1, 2, 3])"
    by (simp add: transform_def mul_def add_def)
next
  assume "length rs = length ss \<and> length ss = length ls"
  then show "transform (Vec rs) (Vec ls) (Vec ss)
             = Inr (Vec (map2 (\<lambda>x y. x + y) (map2 (\<lambda>x y. x * y) rs ss) ls))"
    by (simp add: transform_vectors)
next
  fix e
  assume e: "transform raw loc scale = Inr e"
  from transform_shape[OF e]
  show "size_nd e = bsize (bsize (size_nd raw) (size_nd scale)) (size_nd loc)"
    and "is_vec e \<longleftrightarrow> is_vec raw \<or> is_vec scale \<or> is_vec loc"
    by simp_all
  fix i
  assume "i < size_nd e"
  with e show "elem e i = elem raw i * elem scale i + elem loc i"
    by (rule transform_elem)
next
  show "(\<exists>e. transform raw loc scale = Inr e) \<longleftrightarrow>
        compatible (size_nd raw) (size_nd scale)
        \<and> compatible (bsize (size_nd raw) (size_nd scale)) (size_nd loc)"
    by (rule transform_returns)
next
  assume "fits n raw \<and> fits n loc \<and> fits n scale"
  then show "\<exists>e. transform raw loc scale = Inr e \<and> fits n e
           \<and> size_nd e = (if size_nd raw = n \<or> size_nd scale = n \<or> size_nd loc = n
                           then n else 1)"
    by (simp add: transform_fits_size)
qed

theorem transform_elementwise_witness:
  "length [4, 5 :: real] = length [2, 3 :: real] \<and> length [2, 3 :: real] = length [10, 20 :: real]
   \<and> transform (Vec [4, 5]) (Vec [10, 20]) (Vec [2, 3]) = Inr (Vec [18, 35])
   \<and> fits 3 (Scalar 2) \<and> fits 3 (Vec [10, 20, 30]) \<and> fits 3 (Vec [1, 2, 3])
   \<and> compatible (size_nd (Scalar 2)) (size_nd (Vec [1, 2, 3]))
   \<and> compatible (bsize (size_nd (Scalar 2)) (size_nd (Vec [1, 2, 3]))) (size_nd (Vec [10, 20, 30]))
   \<and> transform (Scalar 2) (Vec [10, 20, 30]) (Vec [1, 2, 3]) = Inr (Vec [12, 24, 36])
   \<and> size_nd (Vec [12, 24, 36])
       = bsize (bsize (size_nd (Scalar 2)) (size_nd (Vec [1, 2, 3]))) (size_nd (Vec [10, 20, 30]))
   \<and> size_nd (Vec [12, 24, 36]) = 3
   \<and> is_vec (Vec [12, 24, 36])
   \<and> elem (Vec [12, 24, 36]) 2
       = elem (Scalar 2) 2 * elem (Vec [1, 2, 3]) 2 + elem (Vec [10, 20, 30]) 2"
  using transform_elementwise[of "[4, 5]" "[2, 3]" "[10, 20]"
      "Scalar 2" "Vec [10, 20, 30]" "Vec [1, 2, 3]" 3]
  by (simp add: fits_def bsize_def compatible_def transform_def mul_def add_def)

text \<open>
  C3, as the code has it. The expression never inspects the sign of \<open>scale\<close> and never
  raises \<open>InvalidParameterError\<close>: the only error it can raise is the array layer's shape
  mismatch, and an input whose scale has a non-positive element gets a result like any
  other, of the broadcast shape of the inputs, as soon as the three inputs fit one
  length.
\<close>

theorem transform_accepts_nonpositive_scale:
  "transform raw loc scale \<noteq> Inl InvalidParameterError
   \<and> (\<forall>err. transform raw loc scale = Inl err \<longrightarrow> err = ShapeMismatch)
   \<and> (has_nonpositive scale \<and> fits n raw \<and> fits n loc \<and> fits n scale \<longrightarrow>
        (\<exists>e. transform raw loc scale = Inr e
           \<and> size_nd e = bsize (bsize (size_nd raw) (size_nd scale)) (size_nd loc)
           \<and> (is_vec e \<longleftrightarrow> is_vec raw \<or> is_vec scale \<or> is_vec loc)
           \<and> (\<forall>i. i < size_nd e \<longrightarrow> elem e i = elem raw i * elem scale i + elem loc i)))"
proof (intro conjI allI impI)
  show "transform raw loc scale \<noteq> Inl InvalidParameterError"
    using transform_error_is_shape[of raw loc scale InvalidParameterError] by auto
next
  fix err
  assume "transform raw loc scale = Inl err"
  then show "err = ShapeMismatch" by (rule transform_error_is_shape)
next
  assume "has_nonpositive scale \<and> fits n raw \<and> fits n loc \<and> fits n scale"
  then obtain e where e: "transform raw loc scale = Inr e"
    using transform_fits[of n raw loc scale] by auto
  then have "\<forall>i. i < size_nd e \<longrightarrow> elem e i = elem raw i * elem scale i + elem loc i"
    by (simp add: transform_elem)
  with e transform_shape[OF e] show "\<exists>e. transform raw loc scale = Inr e
      \<and> size_nd e = bsize (bsize (size_nd raw) (size_nd scale)) (size_nd loc)
      \<and> (is_vec e \<longleftrightarrow> is_vec raw \<or> is_vec scale \<or> is_vec loc)
      \<and> (\<forall>i. i < size_nd e \<longrightarrow> elem e i = elem raw i * elem scale i + elem loc i)"
    by simp
qed

theorem transform_accepts_nonpositive_scale_witness:
  "has_nonpositive (Vec [2, - 1]) \<and> fits 2 (Vec [3, 4]) \<and> fits 2 (Scalar 1) \<and> fits 2 (Vec [2, - 1])
   \<and> transform (Vec [3, 4]) (Scalar 1) (Vec [2, - 1]) = Inr (Vec [7, - 3])
   \<and> transform (Vec [3, 4]) (Scalar 1) (Vec [2, - 1]) \<noteq> Inl InvalidParameterError"
  using transform_accepts_nonpositive_scale[of "Vec [3, 4]" "Scalar 1" "Vec [2, - 1]" 2]
  by (simp add: fits_def transform_def mul_def add_def)

text \<open>
  C3, as the specification states it, fails on the input it names: with \<open>raw = [0.5]\<close>,
  \<open>loc = 0.0\<close> and \<open>scale = -1.0\<close> the scale is non-positive, and the expression returns
  \<open>[-0.5]\<close> instead of raising \<open>InvalidParameterError\<close>.
\<close>

theorem transform_negative_scale_counterexample:
  "has_nonpositive (Scalar (- 1))
   \<and> transform (Vec [1 / 2]) (Scalar 0) (Scalar (- 1)) = Inr (Vec [- 1 / 2])
   \<and> transform (Vec [1 / 2]) (Scalar 0) (Scalar (- 1)) \<noteq> Inl InvalidParameterError"
  by (simp add: transform_def mul_def add_def)

text \<open>
  C6. With the raw input zero the transform returns the location: with a scalar scale the
  result is \<open>loc\<close> itself, whatever the scale; with a vector \<open>loc\<close> and a scale of as many
  elements the result is \<open>loc\<close> itself; and in every case in which an array is returned,
  each of its elements is the element of \<open>loc\<close> at that index. The sign of the scale plays
  no part.
\<close>

theorem transform_zero_raw:
  "transform (Scalar 0) loc (Scalar s) = Inr loc
   \<and> (is_vec loc \<and> size_nd scale = size_nd loc \<longrightarrow> transform (Scalar 0) loc scale = Inr loc)
   \<and> (\<forall>e i. transform (Scalar 0) loc scale = Inr e \<and> i < size_nd e \<longrightarrow> elem e i = elem loc i)"
proof (intro conjI allI impI)
  show "transform (Scalar 0) loc (Scalar s) = Inr loc"
    by (cases loc) (auto simp: transform_def mul_def add_def intro: map_idI)
next
  assume a: "is_vec loc \<and> size_nd scale = size_nd loc"
  then obtain ls where ls: "loc = Vec ls" by (cases loc) auto
  have z: "map2 (\<lambda>x y. x + y) (map (\<lambda>y. 0 * y) ss) ls = ls"
    if "length ss = length ls" for ss :: "real list"
    using that by (intro nth_equalityI) auto
  show "transform (Scalar 0) loc scale = Inr loc"
  proof (cases scale)
    case (Scalar x)
    with a ls show ?thesis
      by (auto simp: transform_def mul_def add_def intro: map_idI)
  next
    case (Vec ss)
    with a ls have "length ss = length ls" by simp
    with Vec ls show ?thesis
      by (simp add: transform_def mul_def add_def z)
  qed
next
  fix e i
  assume "transform (Scalar 0) loc scale = Inr e \<and> i < size_nd e"
  then show "elem e i = elem loc i"
    using transform_elem[of "Scalar 0" loc scale e i] by simp
qed

theorem transform_zero_raw_witness:
  "is_vec (Vec [5, 7]) \<and> size_nd (Vec [2, 3]) = size_nd (Vec [5, 7])
   \<and> transform (Scalar 0) (Vec [5, 7]) (Vec [2, 3]) = Inr (Vec [5, 7])
   \<and> transform (Scalar 0) (Vec [5, 7]) (Scalar 2) = Inr (Vec [5, 7])
   \<and> elem (Vec [5, 7]) 1 = 7"
  using transform_zero_raw[of "Vec [5, 7]" 2 "Vec [2, 3]"]
  by (simp add: transform_def mul_def add_def)

section \<open>The inverse operation and the round trip\<close>

lemma has_zero_elem:
  assumes "\<not> has_zero a" and "i < size_nd a \<or> size_nd a = 1"
  shows "elem a i \<noteq> 0"
  using assms by (cases a) (auto simp: in_set_conv_nth)

lemma nd_eqI:
  assumes "is_vec a = is_vec b" "size_nd a = size_nd b" "\<forall>i<size_nd a. elem a i = elem b i"
  shows "a = b"
proof (cases a)
  case (Scalar x)
  then show ?thesis using assms by (cases b) auto
next
  case (Vec xs)
  then obtain ys where ys: "b = Vec ys" using assms by (cases b) auto
  with Vec assms have "length xs = length ys" "\<forall>i<length xs. xs ! i = ys ! i"
    by (auto split: if_splits)
  then have "xs = ys" by (simp add: nth_equalityI)
  with Vec ys show ?thesis by simp
qed

lemma untransform_transform:
  assumes t: "transform raw loc scale = Inr e" and nz: "\<not> has_zero scale"
  shows "\<exists>r. untransform e loc scale = Inr r \<and> size_nd r = size_nd e \<and> is_vec r = is_vec e
          \<and> (\<forall>i<size_nd e. elem r i = elem raw i)"
proof -
  from t obtain p where p: "mul raw scale = Inr p" and e: "add p loc = Inr e"
    by (auto simp: transform_def split: sum.splits)
  have sp: "size_nd p = (if size_nd raw = 1 then size_nd scale else size_nd raw)"
     and vp: "is_vec p \<longleftrightarrow> is_vec raw \<or> is_vec scale"
    using p by (simp_all add: mul_def broadcast2_size)
  have se: "size_nd e = (if size_nd p = 1 then size_nd loc else size_nd p)"
     and ve: "is_vec e \<longleftrightarrow> is_vec p \<or> is_vec loc"
    using e by (simp_all add: add_def broadcast2_size)
  have fl: "fits (size_nd e) loc" "fits (size_nd e) scale" "fits (size_nd e) e"
    using p e sp se
    by - (cases raw; cases scale; cases loc; auto simp: fits_def mul_def add_def split: if_splits)+
  then obtain d where d: "sub e loc = Inr d" "fits (size_nd e) d"
    using broadcast2_fits[of "size_nd e" e loc] by (auto simp: sub_def)
  with fl obtain r where r: "divide_nd d scale = Inr r" "fits (size_nd e) r"
    using broadcast2_fits[of "size_nd e" d scale] by (auto simp: divide_nd_def)
  have sd: "size_nd d = size_nd e" and vd: "is_vec d \<longleftrightarrow> is_vec e \<or> is_vec loc"
    using d(1) se by (auto simp: sub_def dest!: broadcast2_size split: if_splits)
  have sr: "size_nd r = size_nd e" and vr: "is_vec r \<longleftrightarrow> is_vec d \<or> is_vec scale"
    using r(1) sd sp se by (auto simp: divide_nd_def dest!: broadcast2_size split: if_splits)
  have "elem r i = elem raw i" if i: "i < size_nd e" for i
  proof -
    have "elem r i = elem d i / elem scale i"
      using r(1) i sr by (simp add: divide_nd_def broadcast2_elem)
    moreover have "elem d i = elem e i - elem loc i"
      using d(1) i sd by (simp add: sub_def broadcast2_elem)
    moreover have "elem e i = elem raw i * elem scale i + elem loc i"
      using t i by (rule transform_elem)
    moreover have "elem scale i \<noteq> 0"
      using nz fl(2) i by (intro has_zero_elem) (auto simp: fits_def)
    ultimately show ?thesis by simp
  qed
  moreover have "is_vec r = is_vec e"
    using vr vd ve vp by auto
  ultimately show ?thesis
    using r(1) d(1) nz sr by (simp add: untransform_def)
qed

text \<open>
  C4. Whenever the forward transform returns an array \<open>e\<close> and no element of \<open>scale\<close> is
  zero, the inverse applied to \<open>e\<close> with the same \<open>loc\<close> and \<open>scale\<close> returns an array of
  the shape of \<open>e\<close> whose every element is the element of \<open>raw\<close> at that index; when
  \<open>raw\<close> already has the shape of \<open>e\<close>, the inverse returns \<open>raw\<close> itself. The identity
  is exact over the reals; the sign of \<open>scale\<close> plays no part.
\<close>

theorem untransform_transform_roundtrip:
  assumes "transform raw loc scale = Inr e" and "\<not> has_zero scale"
  shows "\<exists>r. untransform e loc scale = Inr r
           \<and> size_nd r = size_nd e \<and> is_vec r = is_vec e
           \<and> (\<forall>i. i < size_nd e \<longrightarrow> elem r i = elem raw i)
           \<and> (size_nd raw = size_nd e \<and> is_vec raw = is_vec e \<longrightarrow> r = raw)"
proof -
  from untransform_transform[OF assms] obtain r where
    r: "untransform e loc scale = Inr r" "size_nd r = size_nd e" "is_vec r = is_vec e"
       "\<forall>i<size_nd e. elem r i = elem raw i"
    by blast
  have "r = raw" if "size_nd raw = size_nd e \<and> is_vec raw = is_vec e"
    using that r by (intro nd_eqI) auto
  with r show ?thesis by blast
qed

theorem untransform_transform_roundtrip_witness:
  "transform (Vec [1, 2]) (Scalar 10) (Vec [3, - 4]) = Inr (Vec [13, 2])
   \<and> \<not> has_zero (Vec [3, - 4])
   \<and> untransform (Vec [13, 2]) (Scalar 10) (Vec [3, - 4]) = Inr (Vec [1, 2])"
  using untransform_transform_roundtrip[of "Vec [1, 2]" "Scalar 10" "Vec [3, - 4]" "Vec [13, 2]"]
  by (simp add: transform_def untransform_def mul_def add_def sub_def divide_nd_def)

text \<open>
  C5. The inverse operation invoked with a zero scale returns \<open>DivisionUndefinedError\<close>,
  whatever \<open>effective\<close> and \<open>loc\<close> are, and so returns no array at all: with the scalar
  zero, and with any array that has a zero element.
\<close>

theorem untransform_zero_scale:
  "untransform effective loc (Scalar 0) = Inl DivisionUndefinedError
   \<and> (has_zero scale \<longrightarrow>
        untransform effective loc scale = Inl DivisionUndefinedError
        \<and> (\<forall>r. untransform effective loc scale \<noteq> Inr r))"
  by (simp add: untransform_def)

theorem untransform_zero_scale_witness:
  "has_zero (Vec [2, 0])
   \<and> untransform (Vec [1, 2]) (Scalar 5) (Vec [2, 0]) = Inl DivisionUndefinedError
   \<and> untransform (Vec [1, 2]) (Scalar 5) (Scalar 0) = Inl DivisionUndefinedError"
  using untransform_zero_scale[of "Vec [1, 2]" "Scalar 5" "Vec [2, 0]"]
  by simp

section \<open>Purity of the transform\<close>

lemma transform_ref_returned:
  assumes "raw < length h" "loc < length h" "scale < length h"
  shows "returned (transform_ref h raw loc scale) = transform (h ! raw) (h ! loc) (h ! scale)"
  using assms
  by (auto simp: transform_ref_def mul_ref_def add_ref_def alloc_def transform_def nth_append
      split: sum.splits)

lemma transform_ref_frame:
  assumes "transform_ref h raw loc scale = Inr (a, h')"
  shows "take (length h) h' = h \<and> a < length h' \<and> length h' = length h + 2"
  using assms
  by (auto simp: transform_ref_def mul_ref_def add_ref_def alloc_def split: sum.splits)

text \<open>
  C7. An evaluation of the transform on a store, given references to three existing
  arrays, returns exactly the value that the function \<open>transform\<close> gives on the three
  arrays' values; it leaves every array that existed before as it was (the store after
  the evaluation starts with the store before it) and so changes nothing but by adding
  the new arrays it returns; and two evaluations, on any two stores and through any
  references, return equal values whenever the three inputs have equal values.
\<close>

theorem transform_ref_pure:
  assumes "raw < length h" and "loc < length h" and "scale < length h"
  shows "returned (transform_ref h raw loc scale) = transform (h ! raw) (h ! loc) (h ! scale)
     \<and> (\<forall>a h'. transform_ref h raw loc scale = Inr (a, h') \<longrightarrow>
          take (length h) h' = h \<and> a < length h')
     \<and> (\<forall>h2 raw2 loc2 scale2.
          raw2 < length h2 \<and> loc2 < length h2 \<and> scale2 < length h2
          \<and> h2 ! raw2 = h ! raw \<and> h2 ! loc2 = h ! loc \<and> h2 ! scale2 = h ! scale \<longrightarrow>
          returned (transform_ref h2 raw2 loc2 scale2) = returned (transform_ref h raw loc scale))"
proof (intro conjI allI impI)
  show "returned (transform_ref h raw loc scale) = transform (h ! raw) (h ! loc) (h ! scale)"
    using assms by (rule transform_ref_returned)
next
  fix a h'
  assume "transform_ref h raw loc scale = Inr (a, h')"
  then show "take (length h) h' = h" and "a < length h'"
    using transform_ref_frame[of h raw loc scale a h'] by simp_all
next
  fix h2 raw2 loc2 scale2
  assume "raw2 < length h2 \<and> loc2 < length h2 \<and> scale2 < length h2
          \<and> h2 ! raw2 = h ! raw \<and> h2 ! loc2 = h ! loc \<and> h2 ! scale2 = h ! scale"
  then show "returned (transform_ref h2 raw2 loc2 scale2) = returned (transform_ref h raw loc scale)"
    using assms by (simp add: transform_ref_returned)
qed

theorem transform_ref_pure_witness:
  "(0::nat) < length [Vec [1, 2], Scalar 10, Vec [3]]
   \<and> (1::nat) < length [Vec [1, 2], Scalar 10, Vec [3]]
   \<and> (2::nat) < length [Vec [1, 2], Scalar 10, Vec [3]]
   \<and> transform_ref [Vec [1, 2], Scalar 10, Vec [3]] 0 1 2
       = Inr (4, [Vec [1, 2], Scalar 10, Vec [3], Vec [3, 6], Vec [13, 16]])
   \<and> take 3 [Vec [1, 2], Scalar 10, Vec [3], Vec [3, 6], Vec [13, 16]]
       = [Vec [1, 2], Scalar 10, Vec [3]]
   \<and> returned (transform_ref [Vec [1, 2], Scalar 10, Vec [3]] 0 1 2)
       = transform (Vec [1, 2]) (Scalar 10) (Vec [3])"
  using transform_ref_pure[of 0 "[Vec [1, 2], Scalar 10, Vec [3]]" 1 2]
  by (simp add: transform_ref_def mul_ref_def add_ref_def alloc_def transform_def mul_def add_def)

section \<open>Index accesses and probabilities of the hierarchical model\<close>

lemma index1_in_range:
  assumes "0 \<le> i" and "i < int (length xs)"
  shows "index1 xs i = Inr (xs ! nat i)"
  using assms by (simp add: index1_def)

lemma getitem_in_range:
  assumes "\<forall>i\<in>set js. 0 \<le> i \<and> i < int (length xs)"
  shows "getitem xs js = Inr (map (\<lambda>i. xs ! nat i) js)"
  using assms by (induction js) (simp_all add: index1_in_range)

lemma logit_p_shop_transform:
  assumes "getitem (logit_p_owner_scale pt) owner_idx = Inr s"
    and "getitem (logit_p_owner_mean pt) owner_idx = Inr m"
  shows "logit_p_shop owner_idx pt = transform (Vec (logit_p_shop_raw pt)) (Vec m) (Vec s)"
  using assms by (simp add: logit_p_shop_def transform_def split: sum.splits)

lemma logit_p_shop_value:
  assumes sh: "declared_shapes owner_idx pt"
    and ix: "\<forall>i\<in>set owner_idx. 0 \<le> i \<and> i < int (n_owners owner_idx)"
  shows "logit_p_shop owner_idx pt
         = Inr (Vec (map2 (\<lambda>x y. x + y)
                      (map2 (\<lambda>x y. x * y) (logit_p_shop_raw pt)
                         (map (\<lambda>i. logit_p_owner_scale pt ! nat i) owner_idx))
                      (map (\<lambda>i. logit_p_owner_mean pt ! nat i) owner_idx)))"
proof -
  from sh ix have s: "getitem (logit_p_owner_scale pt) owner_idx
      = Inr (map (\<lambda>i. logit_p_owner_scale pt ! nat i) owner_idx)"
    by (intro getitem_in_range) (simp add: declared_shapes_def)
  from sh ix have m: "getitem (logit_p_owner_mean pt) owner_idx
      = Inr (map (\<lambda>i. logit_p_owner_mean pt ! nat i) owner_idx)"
    by (intro getitem_in_range) (simp add: declared_shapes_def)
  from sh have len: "length (logit_p_shop_raw pt) = length owner_idx"
    by (simp add: declared_shapes_def)
  show ?thesis
    unfolding logit_p_shop_transform[OF s m]
    by (rule transform_vectors) (simp_all add: len)
qed

text \<open>
  C8. When the point has the shapes the model declares and every value of \<open>owner_idx\<close>
  lies from \<open>0\<close> up to, not including, \<open>n_owners\<close>, both index accesses of the per-shop
  node are in bounds (each reads the owner-level vector at the positions \<open>owner_idx\<close>
  names, without \<open>IndexError\<close>), and the node returns a vector: the transform of the raw
  vector by the indexed mean and scale, one element per row of the data.
\<close>

theorem logit_p_shop_total:
  assumes "declared_shapes owner_idx pt"
    and "\<forall>i\<in>set owner_idx. 0 \<le> i \<and> i < int (n_owners owner_idx)"
  shows "getitem (logit_p_owner_scale pt) owner_idx
           = Inr (map (\<lambda>i. logit_p_owner_scale pt ! nat i) owner_idx)
     \<and> getitem (logit_p_owner_mean pt) owner_idx
           = Inr (map (\<lambda>i. logit_p_owner_mean pt ! nat i) owner_idx)
     \<and> (\<forall>i\<in>set owner_idx. nat i < length (logit_p_owner_scale pt)
                            \<and> nat i < length (logit_p_owner_mean pt))
     \<and> logit_p_shop owner_idx pt
           = transform (Vec (logit_p_shop_raw pt))
               (Vec (map (\<lambda>i. logit_p_owner_mean pt ! nat i) owner_idx))
               (Vec (map (\<lambda>i. logit_p_owner_scale pt ! nat i) owner_idx))
     \<and> logit_p_shop owner_idx pt
           = Inr (Vec (map2 (\<lambda>x y. x + y)
                        (map2 (\<lambda>x y. x * y) (logit_p_shop_raw pt)
                           (map (\<lambda>i. logit_p_owner_scale pt ! nat i) owner_idx))
                        (map (\<lambda>i. logit_p_owner_mean pt ! nat i) owner_idx)))"
proof -
  from assms have s: "getitem (logit_p_owner_scale pt) owner_idx
      = Inr (map (\<lambda>i. logit_p_owner_scale pt ! nat i) owner_idx)"
    by (intro getitem_in_range) (simp add: declared_shapes_def)
  from assms have m: "getitem (logit_p_owner_mean pt) owner_idx
      = Inr (map (\<lambda>i. logit_p_owner_mean pt ! nat i) owner_idx)"
    by (intro getitem_in_range) (simp add: declared_shapes_def)
  from assms have b: "\<forall>i\<in>set owner_idx. nat i < length (logit_p_owner_scale pt)
      \<and> nat i < length (logit_p_owner_mean pt)"
    by (auto simp: declared_shapes_def)
  note t = logit_p_shop_transform[OF s m]
  note v = logit_p_shop_value[OF assms]
  from s m b t v show ?thesis by blast
qed

theorem logit_p_shop_total_witness:
  "declared_shapes [0, 1, 0]
     \<lparr>logit_p_overall = 0, logit_p_owner_mean = [1, 2], logit_p_owner_scale = [3, 4],
      logit_p_shop_raw = [1, 1, 1]\<rparr>
   \<and> list_all (\<lambda>i. 0 \<le> i \<and> i < int (n_owners [0, 1, 0])) [0, 1, 0]
   \<and> getitem [3, 4] [0, 1, 0] = Inr [3, 4, 3]
   \<and> getitem [1, 2] [0, 1, 0] = Inr [1, 2, 1]
   \<and> logit_p_shop [0, 1, 0]
       \<lparr>logit_p_overall = 0, logit_p_owner_mean = [1, 2], logit_p_owner_scale = [3, 4],
        logit_p_shop_raw = [1, 1, 1]\<rparr> = Inr (Vec [4, 6, 4])"
  using logit_p_shop_total[of "[0, 1, 0]"
      "\<lparr>logit_p_overall = 0, logit_p_owner_mean = [1, 2], logit_p_owner_scale = [3, 4],
        logit_p_shop_raw = [1, 1, 1]\<rparr>"]
  by (simp add: declared_shapes_def n_owners_def logit_p_shop_def index1_def mul_def add_def)

lemma invlogit_bounds: "0 < invlogit z \<and> invlogit z < 1"
  by (simp add: invlogit_def add_pos_pos)

lemma map_nd_elem: "i < size_nd a \<Longrightarrow> elem (map_nd f a) i = f (elem a i)"
  by (cases a) auto

lemma map_nd_size: "size_nd (map_nd f a) = size_nd a"
  by (cases a) auto

text \<open>
  C9. The inverse logit \<open>1 / (1 + exp (- z))\<close> of every real number \<open>z\<close> lies strictly
  between \<open>0\<close> and \<open>1\<close>, and so does every element of \<open>p_shop\<close>, the probability
  handed to the Binomial likelihood, whenever the node \<open>logit_p_shop\<close> it is computed
  from returns an array; and that node does return an array when the point has the
  declared shapes and every value of \<open>owner_idx\<close> is a valid owner index.
\<close>

theorem invlogit_in_unit_interval:
  "0 < invlogit z \<and> invlogit z < 1
   \<and> (\<forall>p i. p_shop owner_idx pt = Inr p \<and> i < size_nd p \<longrightarrow> 0 < elem p i \<and> elem p i < 1)
   \<and> (declared_shapes owner_idx pt
        \<and> list_all (\<lambda>i. 0 \<le> i \<and> i < int (n_owners owner_idx)) owner_idx \<longrightarrow>
        (\<exists>p. p_shop owner_idx pt = Inr p \<and> size_nd p = length owner_idx))"
proof (intro conjI allI impI)
  show "0 < invlogit z" and "invlogit z < 1" by (simp_all add: invlogit_bounds)
next
  assume "declared_shapes owner_idx pt
        \<and> list_all (\<lambda>i. 0 \<le> i \<and> i < int (n_owners owner_idx)) owner_idx"
  then have sh: "declared_shapes owner_idx pt"
    and ix: "\<forall>i\<in>set owner_idx. 0 \<le> i \<and> i < int (n_owners owner_idx)"
    by (simp_all add: list_all_iff)
  from sh have "length (logit_p_shop_raw pt) = length owner_idx"
    by (simp add: declared_shapes_def)
  then show "\<exists>p. p_shop owner_idx pt = Inr p \<and> size_nd p = length owner_idx"
    by (simp add: p_shop_def logit_p_shop_value[OF sh ix])
next
  fix p i
  assume a: "p_shop owner_idx pt = Inr p \<and> i < size_nd p"
  then obtain zs where "p = map_nd invlogit zs"
    by (auto simp: p_shop_def split: sum.splits)
  with a have "elem p i = invlogit (elem zs i)"
    by (simp add: map_nd_elem map_nd_size)
  then show "0 < elem p i" and "elem p i < 1" by (simp_all add: invlogit_bounds)
qed

theorem invlogit_in_unit_interval_witness:
  "p_shop [0, 1, 0]
       \<lparr>logit_p_overall = 0, logit_p_owner_mean = [1, 2], logit_p_owner_scale = [3, 4],
        logit_p_shop_raw = [1, 1, 1]\<rparr> = Inr (Vec [invlogit 4, invlogit 6, invlogit 4])
   \<and> declared_shapes [0, 1, 0]
       \<lparr>logit_p_overall = 0, logit_p_owner_mean = [1, 2], logit_p_owner_scale = [3, 4],
        logit_p_shop_raw = [1, 1, 1]\<rparr>
   \<and> list_all (\<lambda>i. 0 \<le> i \<and> i < int (n_owners [0, 1, 0])) [0, 1, 0]
   \<and> (1::nat) < size_nd (Vec [invlogit 4, invlogit 6, invlogit 4])
   \<and> 0 < elem (Vec [invlogit 4, invlogit 6, invlogit 4]) 1
   \<and> elem (Vec [invlogit 4, invlogit 6, invlogit 4]) 1 < 1"
  using invlogit_in_unit_interval[of 6 "[0, 1, 0]"
      "\<lparr>logit_p_overall = 0, logit_p_owner_mean = [1, 2], logit_p_owner_scale = [3, 4],
        logit_p_shop_raw = [1, 1, 1]\<rparr>"]
  by (simp add: p_shop_def logit_p_shop_def index1_def mul_def add_def declared_shapes_def
      n_owners_def)

section \<open>The transform of a standard normal draw\<close>

lemma gauss_term: "gauss_coeff n * x ^ n = (if even n then ((- (x\<^sup>2) / 2) ^ (n div 2) / fact (n div 2)) else 0)"
proof (cases "even n")
  case True
  then obtain k where k: "n = 2 * k" by (auto elim: evenE)
  have "(- (x\<^sup>2) / 2) ^ k = (- 1 / 2) ^ k * x ^ (2 * k)"
    by (simp add: power_mult power_mult_distrib[symmetric])
  with k show ?thesis by (simp add: gauss_coeff_def)
next
  case False
  then show ?thesis by (simp add: gauss_coeff_def)
qed

lemma gauss_series: "(\<lambda>n. gauss_coeff n * x ^ n) sums exp (- (x\<^sup>2) / 2)"
proof -
  have "(\<lambda>k. (- (x\<^sup>2) / 2) ^ k /\<^sub>R fact k) sums exp (- (x\<^sup>2) / 2)"
    by (rule exp_converges)
  then have e: "(\<lambda>k. (- (x\<^sup>2) / 2) ^ k / fact k) sums exp (- (x\<^sup>2) / 2)"
    by (simp add: field_simps)
  have z: "(\<lambda>k. 0 :: real) sums 0" by simp
  from sums_if[OF z e] show ?thesis
    by (simp add: gauss_term)
qed

lemma gauss_abs_summable: "summable (\<lambda>n. \<bar>gauss_coeff n * y ^ n\<bar>)"
proof -
  have "(\<lambda>k. ((y\<^sup>2) / 2) ^ k /\<^sub>R fact k) sums exp ((y\<^sup>2) / 2)"
    by (rule exp_converges)
  then have e: "(\<lambda>k. ((y\<^sup>2) / 2) ^ k / fact k) sums exp ((y\<^sup>2) / 2)"
    by (simp add: field_simps)
  have z: "(\<lambda>k. 0 :: real) sums 0" by simp
  have "(\<lambda>n. if even n then ((y\<^sup>2) / 2) ^ (n div 2) / fact (n div 2) else 0) sums (0 + exp ((y\<^sup>2) / 2))"
    by (rule sums_if[OF z e])
  moreover have "\<bar>gauss_coeff n * y ^ n\<bar> = (if even n then ((y\<^sup>2) / 2) ^ (n div 2) / fact (n div 2) else 0)" for n
    by (simp add: gauss_term abs_divide power_abs[symmetric] abs_power2 del: power_abs)
  ultimately show ?thesis by (simp add: sums_iff)
qed

lemma gauss_prim_summable: "summable (\<lambda>n. gauss_prim_coeff n * y ^ n)"
proof -
  have "summable (\<lambda>n. gauss_prim_coeff (Suc n) * y ^ Suc n)"
  proof (rule summable_comparison_test')
    show "summable (\<lambda>n. \<bar>gauss_coeff n * y ^ n\<bar> * \<bar>y\<bar>)"
      by (intro summable_mult2 gauss_abs_summable)
    fix n :: nat
    have "norm (gauss_prim_coeff (Suc n) * y ^ Suc n) = \<bar>gauss_coeff n * y ^ n\<bar> * \<bar>y\<bar> / real (Suc n)"
      by (simp add: gauss_prim_coeff_def abs_mult)
    also have "\<dots> \<le> \<bar>gauss_coeff n * y ^ n\<bar> * \<bar>y\<bar> / 1"
      by (intro divide_left_mono) auto
    finally show "norm (gauss_prim_coeff (Suc n) * y ^ Suc n) \<le> \<bar>gauss_coeff n * y ^ n\<bar> * \<bar>y\<bar>"
      by simp
  qed
  then show ?thesis by (subst (asm) summable_Suc_iff)
qed

lemma diffs_gauss_prim_coeff: "diffs gauss_prim_coeff = gauss_coeff"
  by (rule ext) (simp add: diffs_def gauss_prim_coeff_def)

lemma DERIV_gauss_prim: "(gauss_prim has_real_derivative exp (- (x\<^sup>2) / 2)) (at x)"
proof -
  have "((\<lambda>x. \<Sum>n. gauss_prim_coeff n * x ^ n) has_real_derivative (\<Sum>n. diffs gauss_prim_coeff n * x ^ n)) (at x)"
    by (rule termdiffs_strong_converges_everywhere) (rule gauss_prim_summable)
  moreover have "(\<Sum>n. diffs gauss_prim_coeff n * x ^ n) = exp (- (x\<^sup>2) / 2)"
    using gauss_series[of x] by (simp add: diffs_gauss_prim_coeff sums_iff)
  moreover have "gauss_prim = (\<lambda>x. \<Sum>n. gauss_prim_coeff n * x ^ n)"
    by (rule ext) (simp add: gauss_prim_def)
  ultimately show ?thesis by simp
qed

lemma gauss_prim_0: "gauss_prim 0 = 0"
  by (simp add: gauss_prim_def gauss_prim_coeff_def)

lemma gauss_prim_mono: "x \<le> y \<Longrightarrow> gauss_prim x \<le> gauss_prim y"
  by (rule DERIV_nonneg_imp_nondecreasing[of x y gauss_prim])
     (auto intro!: exI[of _ "exp (- (_\<^sup>2) / 2)"] DERIV_gauss_prim)

lemma gauss_prim_lower:
  assumes "x \<le> 0"
  shows "- exp (1 / 2) \<le> gauss_prim x"
proof -
  let ?h = "\<lambda>x. gauss_prim x - exp (1 / 2 + x)"
  have d: "(?h has_real_derivative (exp (- (u\<^sup>2) / 2) - exp (1 / 2 + u))) (at u)" for u
    by (auto intro!: derivative_eq_intros DERIV_gauss_prim)
  have le: "exp (- (u\<^sup>2) / 2) - exp (1 / 2 + u) \<le> 0" for u :: real
  proof -
    have "0 \<le> (u + 1)\<^sup>2" by simp
    then have "- (u\<^sup>2) / 2 \<le> 1 / 2 + u" by (simp add: power2_eq_square algebra_simps)
    then show ?thesis by simp
  qed
  have "?h 0 \<le> ?h x"
    by (rule DERIV_nonpos_imp_nonincreasing[OF assms]) (use d le in blast)
  then have "- exp (1 / 2) + exp (1 / 2 + x) \<le> gauss_prim x"
    by (simp add: gauss_prim_0)
  moreover have "0 < exp (1 / 2 + x)" by simp
  ultimately show ?thesis by linarith
qed

lemma gauss_prim_at_bot: "\<exists>L. (gauss_prim \<longlongrightarrow> L) at_bot"
proof -
  let ?f = "\<lambda>x. - gauss_prim (- x)"
  have m: "mono ?f"
    by (auto intro!: monoI gauss_prim_mono)
  have "incseq (\<lambda>n. ?f (real n))"
    by (auto intro!: incseq_SucI gauss_prim_mono)
  moreover have "\<forall>n. ?f (real n) \<le> exp (1 / 2)"
    using gauss_prim_lower[of "- real _"] by (auto simp: minus_le_iff)
  ultimately obtain L where "(\<lambda>n. ?f (real n)) \<longlonglongrightarrow> L"
    by (rule incseq_convergent)
  with m have "(?f \<longlongrightarrow> L) at_top"
    by (rule tendsto_at_topI_sequentially_real)
  then have "((\<lambda>x. - ?f x) \<longlongrightarrow> - L) at_top"
    by (rule tendsto_minus)
  then have "(gauss_prim \<longlongrightarrow> - L) at_bot"
    by (simp add: filterlim_at_bot_mirror)
  then show ?thesis ..
qed

lemma gauss_prim_Lim: "(gauss_prim \<longlongrightarrow> Lim at_bot gauss_prim) at_bot"
proof -
  from gauss_prim_at_bot obtain L where L: "(gauss_prim \<longlongrightarrow> L) at_bot" ..
  then have "Lim at_bot gauss_prim = L"
    by (intro tendsto_Lim) simp_all
  with L show ?thesis by simp
qed

lemma std_normal_cdf_law: "has_normal_law 0 1 std_normal_cdf"
  unfolding has_normal_law_def
proof (intro conjI allI)
  fix x :: real
  have "((\<lambda>x. gauss_prim x - Lim at_bot gauss_prim) has_real_derivative exp (- (x\<^sup>2) / 2) - 0) (at x)"
    by (intro Deriv.field_differentiable_diff DERIV_gauss_prim DERIV_const)
  then have "((\<lambda>x. (gauss_prim x - Lim at_bot gauss_prim) / sqrt (2 * pi)) has_real_derivative
      (exp (- (x\<^sup>2) / 2) - 0) / sqrt (2 * pi)) (at x)"
    by (rule DERIV_cdivide)
  then have "(std_normal_cdf has_real_derivative exp (- (x\<^sup>2) / 2) / sqrt (2 * pi)) (at x)"
    by (simp add: std_normal_cdf_def[abs_def])
  then show "\<exists>d. norm_pdf 0 1 x = Some d \<and> (std_normal_cdf has_real_derivative d) (at x)"
    by (simp add: norm_pdf_def)
next
  have "((\<lambda>x. (gauss_prim x - Lim at_bot gauss_prim) / sqrt (2 * pi)) \<longlongrightarrow> (Lim at_bot gauss_prim - Lim at_bot gauss_prim) / sqrt (2 * pi)) at_bot"
    by (intro tendsto_intros gauss_prim_Lim) simp
  then show "(std_normal_cdf \<longlongrightarrow> 0) at_bot"
    by (simp add: std_normal_cdf_def[abs_def])
qed

lemma has_normal_law_affine:
  assumes F: "has_normal_law 0 1 F" and s: "0 < s"
  shows "has_normal_law m s (\<lambda>t. F ((t - m) / s))"
  unfolding has_normal_law_def
proof (intro conjI allI)
  fix x :: real
  from F have "(F has_real_derivative exp (- ((((x - m) / s))\<^sup>2) / 2) / sqrt (2 * pi)) (at ((x - m) / s))"
    by (auto simp: has_normal_law_def norm_pdf_def dest!: spec[of _ "(x - m) / s"])
  then have "((\<lambda>t. F ((t - m) / s)) has_real_derivative
      exp (- ((((x - m) / s))\<^sup>2) / 2) / sqrt (2 * pi) * (1 / s)) (at x)"
  proof (rule DERIV_chain2)
    have "((\<lambda>t. t - m) has_real_derivative 1 - 0) (at x)"
      by (intro Deriv.field_differentiable_diff DERIV_ident DERIV_const)
    then have "((\<lambda>t. (t - m) / s) has_real_derivative (1 - 0) / s) (at x)"
      by (rule DERIV_cdivide)
    then show "((\<lambda>t. (t - m) / s) has_real_derivative 1 / s) (at x)" by simp
  qed
  with s show "\<exists>d. norm_pdf m s x = Some d \<and> ((\<lambda>t. F ((t - m) / s)) has_real_derivative d) (at x)"
    by (simp add: norm_pdf_def)
next
  have "filterlim (\<lambda>t. (t - m) / s) at_bot at_bot"
    unfolding filterlim_at_bot eventually_at_bot_linorder
  proof
    fix Z :: real
    have "\<forall>t\<le>Z * s + m. (t - m) / s \<le> Z"
      using s by (simp add: field_simps)
    then show "\<exists>N. \<forall>t\<le>N. (t - m) / s \<le> Z" ..
  qed
  moreover from F have "(F \<longlongrightarrow> 0) at_bot" by (simp add: has_normal_law_def)
  ultimately show "((\<lambda>t. F ((t - m) / s)) \<longlongrightarrow> 0) at_bot"
    by (rule filterlim_compose[rotated])
qed

lemma has_normal_law_unique:
  assumes F: "has_normal_law m s F" and G: "has_normal_law m s G"
  shows "F = G"
proof (rule ext)
  fix x
  let ?D = "\<lambda>t. F t - G t"
  have d: "(?D has_real_derivative 0) (at t)" for t
  proof -
    from F obtain a where a: "norm_pdf m s t = Some a" "(F has_real_derivative a) (at t)"
      by (auto simp: has_normal_law_def)
    from G obtain b where b: "norm_pdf m s t = Some b" "(G has_real_derivative b) (at t)"
      by (auto simp: has_normal_law_def)
    from a b have "(?D has_real_derivative a - b) (at t)" "a = b"
      by (auto intro!: derivative_eq_intros)
    then show ?thesis by simp
  qed
  have c: "?D t = ?D x" for t
    using d by (intro DERIV_isconst_all[of ?D t x]) simp
  have e: "eventually (\<lambda>t. ?D t = ?D x) at_bot"
    by (rule always_eventually) (use c in blast)
  have "(?D \<longlongrightarrow> 0 - 0) at_bot"
    using F G by (intro tendsto_diff) (simp_all add: has_normal_law_def)
  then have "(?D \<longlongrightarrow> 0) at_bot" by simp
  then have "((\<lambda>t::real. ?D x) \<longlongrightarrow> 0) at_bot"
    using e by (rule Lim_transform_eventually)
  then have "?D x = 0"
    by (simp add: tendsto_const_iff)
  then show "F x = G x" by simp
qed

lemma transform_scalar: "transform (Scalar r) (Scalar m) (Scalar s) = Inr (Scalar (r * s + m))"
  by (simp add: transform_def mul_def add_def)

lemma transform_event:
  assumes "0 < s"
  shows "{\<omega>. \<exists>e. transform (Scalar (raw \<omega>)) (Scalar m) (Scalar s) = Inr (Scalar e) \<and> e \<le> t}
         = {\<omega>. raw \<omega> \<le> (t - m) / s}"
  using assms by (auto simp: transform_scalar field_simps)

text \<open>
  C2. Let \<open>raw\<close> be a random variable whose distribution function is that of the standard
  normal law, let \<open>scale\<close> be positive, and let \<open>direct\<close> be a random variable, on any
  sample space, whose distribution function is that of the normal law with location \<open>loc\<close>
  and scale \<open>scale\<close>. Then the transform of \<open>raw\<close> has the distribution function of that
  normal law, and it is equal, at every point, to the distribution function of \<open>direct\<close>:
  the two are identically distributed, exactly.
\<close>

theorem transform_normal_in_distribution:
  fixes P :: "'a set \<Rightarrow> real" and Q :: "'b set \<Rightarrow> real"
  assumes "0 < scale"
    and "has_normal_law 0 1 (cdf P raw)"
    and "has_normal_law loc scale (cdf Q direct)"
  shows "has_normal_law loc scale (transform_cdf P raw loc scale)
         \<and> (\<forall>t. transform_cdf P raw loc scale t = cdf Q direct t)"
proof -
  have "transform_cdf P raw loc scale = (\<lambda>t. cdf P raw ((t - loc) / scale))"
    using assms(1) by (intro ext) (simp add: transform_cdf_def cdf_def transform_event)
  moreover have "has_normal_law loc scale (\<lambda>t. cdf P raw ((t - loc) / scale))"
    using assms(2,1) by (rule has_normal_law_affine)
  ultimately have l: "has_normal_law loc scale (transform_cdf P raw loc scale)"
    by simp
  then have "transform_cdf P raw loc scale = cdf Q direct"
    using assms(3) by (rule has_normal_law_unique)
  with l show ?thesis by simp
qed

theorem transform_normal_in_distribution_witness:
  "(0::real) < 2
   \<and> has_normal_law 0 1 (cdf (\<lambda>A. std_normal_cdf (Sup A)) (\<lambda>\<omega>. \<omega>))
   \<and> has_normal_law 5 2 (cdf (\<lambda>A. std_normal_cdf ((Sup A - 5) / 2)) (\<lambda>\<omega>. \<omega>))
   \<and> has_normal_law 5 2 (transform_cdf (\<lambda>A. std_normal_cdf (Sup A)) (\<lambda>\<omega>. \<omega>) 5 2)
   \<and> (\<forall>t. transform_cdf (\<lambda>A. std_normal_cdf (Sup A)) (\<lambda>\<omega>. \<omega>) 5 2 t
          = cdf (\<lambda>A. std_normal_cdf ((Sup A - 5) / 2)) (\<lambda>\<omega>. \<omega>) t)"
proof -
  have half_line: "Sup {\<omega>. \<omega> \<le> t} = t" for t :: real
    using cSup_atMost[of t] by (simp add: atMost_def)
  have p: "cdf (\<lambda>A. std_normal_cdf (Sup A)) (\<lambda>\<omega>. \<omega>) = std_normal_cdf"
    by (intro ext) (simp add: cdf_def half_line)
  have q: "cdf (\<lambda>A. std_normal_cdf ((Sup A - 5) / 2)) (\<lambda>\<omega>. \<omega>)
           = (\<lambda>t. std_normal_cdf ((t - 5) / 2))"
    by (intro ext) (simp add: cdf_def half_line)
  have h0: "(0::real) < 2" by simp
  have h1: "has_normal_law 0 1 (cdf (\<lambda>A. std_normal_cdf (Sup A)) (\<lambda>\<omega>. \<omega>))"
    unfolding p by (rule std_normal_cdf_law)
  have h2: "has_normal_law 5 2 (cdf (\<lambda>A. std_normal_cdf ((Sup A - 5) / 2)) (\<lambda>\<omega>. \<omega>))"
    unfolding q using std_normal_cdf_law h0 by (rule has_normal_law_affine)
  from h0 h1 h2 transform_normal_in_distribution[OF h0 h1 h2] show ?thesis
    by blast
qed

section \<open>Range and sign of Neal's funnel\<close>

lemma bounds_pos: "0 < underflow_bound" "1 < overflow_bound" "underflow_bound < 1"
  by (simp_all add: underflow_bound_def overflow_bound_def)

lemma overflow_bound_large: "2 ^ 1000 < overflow_bound"
  by (simp add: overflow_bound_def)

lemma underflow_bound_small: "underflow_bound < 1 / 2 ^ 1000"
  by (simp add: underflow_bound_def)

lemma exp_600: "exp (600::real) \<le> 2 ^ 1000"
proof -
  have "exp (1 / 2 :: real) \<le> 1 + 1 / 2 + (1 / 2)\<^sup>2"
    by (rule exp_bound) simp_all
  then have h: "exp (1 / 2 :: real) \<le> 7 / 4" by (simp add: power2_eq_square)
  have "exp (13::real) = exp (of_nat 26 * (1 / 2))" by simp
  also have "\<dots> = exp (1 / 2) ^ 26" by (rule exp_of_nat_mult)
  also have "\<dots> \<le> (7 / 4) ^ 26" using h by (intro power_mono) simp_all
  also have "\<dots> \<le> 2 ^ 21" by (simp add: power_divide)
  finally have a: "exp (13::real) \<le> 2 ^ 21" .
  have "exp (600::real) \<le> exp (of_nat 47 * 13)" by simp
  also have "\<dots> = exp 13 ^ 47" by (rule exp_of_nat_mult)
  also have "\<dots> \<le> ((2::real) ^ 21) ^ 47" using a by (intro power_mono) simp_all
  also have "\<dots> = 2 ^ (21 * 47)" by (rule power_mult[symmetric])
  also have "\<dots> \<le> 2 ^ 1000" by (intro power_increasing) simp_all
  finally show ?thesis .
qed

lemma exp_800: "(2::real) ^ 1075 \<le> exp 800"
proof -
  have "1 + (93 / 125) + (93 / 125)\<^sup>2 / 2 \<le> exp (93 / 125 :: real)"
    by (rule exp_lower_Taylor_quadratic) simp
  then have h: "2 \<le> exp (93 / 125 :: real)" by (simp add: power2_eq_square)
  have "(2::real) ^ 1075 \<le> exp (93 / 125) ^ 1075" using h by (intro power_mono) simp_all
  also have "\<dots> = exp (of_nat 1075 * (93 / 125))" by (rule exp_of_nat_mult[symmetric])
  also have "\<dots> \<le> exp 800" by simp
  finally show ?thesis .
qed

lemma fl_round_nonneg:
  assumes "0 \<le> x" and "x < overflow_bound"
  shows "\<exists>y. fl_round x = Fin y \<and> 0 \<le> y \<and> y \<le> x"
  using assms bounds_pos by (auto simp: fl_round_def)

lemma fl_round_nonneg_cases:
  assumes "0 \<le> x"
  shows "fl_round x = PInf \<or> (\<exists>y. fl_round x = Fin y \<and> 0 \<le> y \<and> y \<le> x)"
  using assms bounds_pos by (auto simp: fl_round_def)

lemma fl_round_nonpos_cases:
  assumes "x \<le> 0"
  shows "fl_round x = NInf \<or> (\<exists>y. fl_round x = Fin y \<and> y \<le> 0)"
  using assms bounds_pos by (auto simp: fl_round_def)

lemma fl_round_not_NaN: "fl_round x \<noteq> NaN"
  by (simp add: fl_round_def)

lemma fl_round_finite:
  assumes "\<bar>x\<bar> < overflow_bound"
  shows "\<exists>y. fl_round x = Fin y"
  using assms by (auto simp: fl_round_def)

lemma np_exp_nonpos:
  assumes "w \<le> 0"
  shows "\<exists>y. np_exp (Fin w) = Fin y \<and> 0 \<le> y \<and> y \<le> 1"
proof -
  have "0 \<le> exp w" "exp w \<le> 1"
    using assms by auto
  moreover from this have "exp w < overflow_bound"
    using bounds_pos by linarith
  ultimately have "0 \<le> exp w" "exp w \<le> 1" "exp w < overflow_bound" by auto
  then obtain y where y: "fl_round (exp w) = Fin y" "0 \<le> y" "y \<le> exp w"
    using fl_round_nonneg[of "exp w"] by blast
  from y(3) \<open>exp w \<le> 1\<close> have "y \<le> 1" by (rule order_trans)
  with y show ?thesis by simp
qed

lemma sqrt_2pi_ge_1: "1 \<le> sqrt (2 * pi)"
proof -
  have "1 \<le> 2 * pi" using pi_ge_two by linarith
  then show ?thesis by simp
qed

lemma std_norm_pdf_bounds:
  assumes "z \<noteq> NaN"
  shows "\<exists>y. std_norm_pdf z = Fin y \<and> 0 \<le> y \<and> y \<le> 1"
proof -
  have sq: "fl_mul z z = PInf \<or> (\<exists>b. fl_mul z z = Fin b \<and> 0 \<le> b)"
  proof (cases z)
    case (Fin a)
    then show ?thesis using fl_round_nonneg_cases[of "a * a"] by auto
  qed (use assms in auto)
  have arg: "fl_div (fl_neg (fl_mul z z)) (Fin 2) = NInf
             \<or> (\<exists>w. fl_div (fl_neg (fl_mul z z)) (Fin 2) = Fin w \<and> w \<le> 0)"
    using sq
  proof
    assume "fl_mul z z = PInf"
    then show ?thesis by simp
  next
    assume "\<exists>b. fl_mul z z = Fin b \<and> 0 \<le> b"
    then obtain b where b: "fl_mul z z = Fin b" "0 \<le> b" by blast
    then show ?thesis using fl_round_nonpos_cases[of "- b / 2"] by auto
  qed
  have ex: "\<exists>e. np_exp (fl_div (fl_neg (fl_mul z z)) (Fin 2)) = Fin e \<and> 0 \<le> e \<and> e \<le> 1"
    using arg np_exp_nonpos by auto
  then obtain e where e: "np_exp (fl_div (fl_neg (fl_mul z z)) (Fin 2)) = Fin e" "0 \<le> e" "e \<le> 1"
    by blast
  have c: "0 < sqrt (2 * pi)" "1 \<le> sqrt (2 * pi)" using sqrt_2pi_ge_1 by auto
  have q: "0 \<le> e / sqrt (2 * pi)" "e / sqrt (2 * pi) \<le> 1"
  proof -
    show "0 \<le> e / sqrt (2 * pi)" using e c by simp
    have "e \<le> sqrt (2 * pi)" using e(3) c(2) by linarith
    then show "e / sqrt (2 * pi) \<le> 1" using c(1) by (simp add: divide_le_eq)
  qed
  then have "e / sqrt (2 * pi) < overflow_bound" using bounds_pos by linarith
  with q obtain y where y: "fl_round (e / sqrt (2 * pi)) = Fin y" "0 \<le> y" "y \<le> e / sqrt (2 * pi)"
    using fl_round_nonneg[of "e / sqrt (2 * pi)"] by blast
  from y(3) q(2) have "y \<le> 1" by (rule order_trans)
  moreover have "std_norm_pdf z = Fin y" using e(1) y(1) c(1) by (simp add: std_norm_pdf_def)
  ultimately show ?thesis using y(2) by simp
qed

lemma norm_pdf_fl_unfold:
  "norm_pdf_fl loc scale x =
     (if \<not> fl_positive scale \<or> fl_div (fl_sub x loc) scale = NaN then NaN
      else fl_div (std_norm_pdf (fl_div (fl_sub x loc) scale)) scale)"
  by (simp add: norm_pdf_fl_def Let_def)

lemma v_like_bounds: "\<exists>y. norm_pdf_fl (Fin 0) (Fin 1) (Fin v) = Fin y \<and> 0 \<le> y \<and> y \<le> 1"
proof -
  let ?z = "fl_div (fl_sub (Fin v) (Fin 0)) (Fin 1)"
  have z: "?z \<noteq> NaN"
    by (cases "fl_round v") (simp_all add: fl_round_not_NaN)
  then obtain k where k: "std_norm_pdf ?z = Fin k" "0 \<le> k" "k \<le> 1"
    using std_norm_pdf_bounds by blast
  then have "k < overflow_bound" using bounds_pos by linarith
  with k obtain y where "fl_round k = Fin y" "0 \<le> y" "y \<le> k"
    using fl_round_nonneg[of k] by blast
  with k z show ?thesis by (auto simp: norm_pdf_fl_unfold)
qed

lemma scale_cases:
  assumes "- 600 \<le> v"
  shows "np_exp (Fin v) = PInf \<or> (np_exp (Fin v) = Fin (exp v) \<and> 1 / exp v \<le> 2 ^ 1000)"
proof -
  have "exp (- v) \<le> exp 600" using assms by simp
  then have i: "1 / exp v \<le> 2 ^ 1000" using exp_600 by (simp add: exp_minus inverse_eq_divide)
  then have "1 / 2 ^ 1000 \<le> exp v"
    by (simp add: field_simps)
  then have "underflow_bound < exp v" using underflow_bound_small by linarith
  then have "\<not> \<bar>exp v\<bar> \<le> underflow_bound" by simp
  moreover have "\<not> exp v \<le> - overflow_bound" using bounds_pos
    by (smt (verit) exp_gt_zero)
  ultimately show ?thesis using i by (simp add: fl_round_def)
qed

lemma x_like_bounds:
  assumes "- 600 \<le> v" and "\<bar>x\<bar> < overflow_bound"
  shows "\<exists>y. norm_pdf_fl (Fin 0) (np_exp (Fin v)) (Fin x) = Fin y \<and> 0 \<le> y \<and> y \<le> 2 ^ 1000"
proof -
  from assms(2) obtain u where u: "fl_sub (Fin x) (Fin 0) = Fin u"
    using fl_round_finite[of x] by auto
  from scale_cases[OF assms(1)] show ?thesis
  proof
    assume s: "np_exp (Fin v) = PInf"
    obtain k where "std_norm_pdf (Fin 0) = Fin k" using std_norm_pdf_bounds[of "Fin 0"] by auto
    with s u show ?thesis by (simp add: norm_pdf_fl_unfold)
  next
    assume s: "np_exp (Fin v) = Fin (exp v) \<and> 1 / exp v \<le> 2 ^ 1000"
    let ?z = "fl_div (Fin u) (Fin (exp v))"
    have z: "?z \<noteq> NaN" by (simp add: fl_round_not_NaN)
    then obtain k where k: "std_norm_pdf ?z = Fin k" "0 \<le> k" "k \<le> 1"
      using std_norm_pdf_bounds by blast
    have "k / exp v \<le> 1 / exp v" using k by (simp add: divide_right_mono)
    with s have q: "0 \<le> k / exp v" "k / exp v \<le> 2 ^ 1000" using k by auto
    then have "k / exp v < overflow_bound" using overflow_bound_large by linarith
    with q obtain y where "fl_round (k / exp v) = Fin y" "0 \<le> y" "y \<le> k / exp v"
      using fl_round_nonneg[of "k / exp v"] by blast
    with s u k z q show ?thesis by (auto simp: norm_pdf_fl_unfold)
  qed
qed

lemma likelihood_nonneg:
  assumes "- 600 \<le> v" and "\<bar>x\<bar> < overflow_bound"
  shows "\<exists>y. neals_funnel_likelihood v x = Fin y \<and> 0 \<le> y"
proof -
  obtain a where a: "norm_pdf_fl (Fin 0) (Fin 1) (Fin v) = Fin a" "0 \<le> a" "a \<le> 1"
    using v_like_bounds by blast
  obtain b where b: "norm_pdf_fl (Fin 0) (np_exp (Fin v)) (Fin x) = Fin b" "0 \<le> b" "b \<le> 2 ^ 1000"
    using x_like_bounds[OF assms] by blast
  have "a * b \<le> 1 * 2 ^ 1000" using a b by (intro mult_mono) simp_all
  then have "a * b < overflow_bound" using overflow_bound_large by linarith
  moreover have "0 \<le> a * b" using a b by simp
  ultimately obtain y where "fl_round (a * b) = Fin y" "0 \<le> y"
    using fl_round_nonneg[of "a * b"] by blast
  with a b show ?thesis by (simp add: neals_funnel_likelihood_def)
qed

lemma scale_underflow:
  assumes "v \<le> - 800"
  shows "np_exp (Fin v) = Fin 0"
proof -
  have "exp 800 \<le> exp (- v)" using assms by simp
  then have "2 ^ 1075 \<le> 1 / exp v" using exp_800 by (simp add: exp_minus inverse_eq_divide)
  then have "exp v \<le> underflow_bound"
    by (simp add: underflow_bound_def field_simps)
  moreover have "0 < exp v" by simp
  moreover have "exp v < overflow_bound" using calculation bounds_pos by linarith
  moreover have "\<not> exp v \<le> - overflow_bound"
    using \<open>0 < exp v\<close> bounds_pos by linarith
  ultimately show ?thesis by (simp add: fl_round_def)
qed

lemma fl_mul_NaN: "fl_mul d NaN = NaN"
  by (cases d) simp_all

lemma likelihood_nan:
  assumes "v \<le> - 800"
  shows "neals_funnel_likelihood v x = NaN"
  using scale_underflow[OF assms]
  by (simp add: neals_funnel_likelihood_def norm_pdf_fl_unfold fl_mul_NaN)

lemma scale_positive:
  assumes "- 600 \<le> v"
  shows "fl_positive (np_exp (Fin v))"
  using scale_cases[OF assms] by auto

text \<open>
  C10, as the code has it. For every \<open>v\<close> from \<open>-600\<close> upwards and every \<open>x\<close> in the range
  of the finite doubles, the scale \<^verbatim>\<open>np.exp(v)\<close> is positive, both densities are
  non-negative numbers, and \<open>neals_funnel_likelihood v x\<close> is a non-negative number. For
  every \<open>v\<close> from \<open>-800\<close> downwards the scale underflows to zero and the function returns
  not-a-number, whatever \<open>x\<close> is.
\<close>

theorem neals_funnel_likelihood_in_range:
  assumes "- 600 \<le> v" and "\<bar>x\<bar> < overflow_bound"
  shows "fl_positive (np_exp (Fin v))
     \<and> (\<exists>v_like x_like.
           norm_pdf_fl (Fin 0) (Fin 1) (Fin v) = Fin v_like \<and> 0 \<le> v_like
           \<and> norm_pdf_fl (Fin 0) (np_exp (Fin v)) (Fin x) = Fin x_like \<and> 0 \<le> x_like)
     \<and> (\<exists>L. neals_funnel_likelihood v x = Fin L \<and> 0 \<le> L)
     \<and> (\<forall>u y. u \<le> - 800 \<longrightarrow>
           np_exp (Fin u) = Fin 0 \<and> neals_funnel_likelihood u y = NaN)"
proof (intro conjI allI impI)
  show "fl_positive (np_exp (Fin v))"
    using assms(1) by (rule scale_positive)
next
  obtain a where a: "norm_pdf_fl (Fin 0) (Fin 1) (Fin v) = Fin a" "0 \<le> a"
    using v_like_bounds by blast
  obtain b where b: "norm_pdf_fl (Fin 0) (np_exp (Fin v)) (Fin x) = Fin b" "0 \<le> b"
    using x_like_bounds[OF assms] by blast
  from a b show "\<exists>v_like x_like.
           norm_pdf_fl (Fin 0) (Fin 1) (Fin v) = Fin v_like \<and> 0 \<le> v_like
           \<and> norm_pdf_fl (Fin 0) (np_exp (Fin v)) (Fin x) = Fin x_like \<and> 0 \<le> x_like"
    by blast
next
  show "\<exists>L. neals_funnel_likelihood v x = Fin L \<and> 0 \<le> L"
    using assms by (rule likelihood_nonneg)
next
  fix u y :: real
  assume u: "u \<le> - 800"
  from u show "np_exp (Fin u) = Fin 0" by (rule scale_underflow)
  from u show "neals_funnel_likelihood u y = NaN" by (rule likelihood_nan)
qed

theorem neals_funnel_likelihood_in_range_witness:
  "(- 600 :: real) \<le> - 3 \<and> \<bar>20 :: real\<bar> < overflow_bound
   \<and> fl_positive (np_exp (Fin (- 3)))
   \<and> (\<exists>L. neals_funnel_likelihood (- 3) 20 = Fin L \<and> 0 \<le> L)
   \<and> (- 900 :: real) \<le> - 800
   \<and> neals_funnel_likelihood (- 900) 20 = NaN"
proof -
  have h1: "(- 600 :: real) \<le> - 3" by simp
  have h2: "\<bar>20 :: real\<bar> < overflow_bound" by (simp add: overflow_bound_def)
  have h3: "(- 900 :: real) \<le> - 800" by simp
  from neals_funnel_likelihood_in_range[OF h1 h2] h1 h2 h3 show ?thesis
    by blast
qed

text \<open>
  C10, as stated, fails at \<open>v = -800\<close>: \<^verbatim>\<open>np.exp(-800)\<close> underflows to zero, so the
  scale of the second density is not positive, and the function returns not-a-number
  instead of a non-negative number.
\<close>

theorem neals_funnel_likelihood_underflow_counterexample:
  "np_exp (Fin (- 800)) = Fin 0
   \<and> \<not> fl_positive (np_exp (Fin (- 800)))
   \<and> norm_pdf_fl (Fin 0) (np_exp (Fin (- 800))) (Fin 0) = NaN
   \<and> neals_funnel_likelihood (- 800) 0 = NaN"
proof -
  have "np_exp (Fin (- 800)) = Fin 0" by (rule scale_underflow) simp
  moreover have "neals_funnel_likelihood (- 800) 0 = NaN" by (rule likelihood_nan) simp
  ultimately show ?thesis by (simp add: norm_pdf_fl_unfold)
qed

end
